theory Spec2Isabelle
  imports Complex_Main "HOL-Library.Monad_Syntax"
begin

section \<open>JavaScript numbers\<close>

text \<open>
  The values of the TypeScript type \<open>number\<close>. A finite value is a rational and the
  arithmetic on finite values is exact: rounding to a 53-bit significand and overflow are
  not modelled. The model computes what the code computes wherever every intermediate
  value is a double (the integer-degree boxes used below, for instance); elsewhere it
  describes the code up to rounding. The special values are kept, because the code
  divides by a ceiling that can be zero: \<open>Num 0\<close> is \<open>+0\<close>, \<open>NegZero\<close> is \<open>-0\<close>.
\<close>

datatype number = Num rat | NegZero | PosInf | NegInf | NaN

fun val :: "number \<Rightarrow> rat" where
  "val (Num r) = r"
| "val _ = 0"

fun is_neg :: "number \<Rightarrow> bool" where
  "is_neg (Num r) = (r < 0)"
| "is_neg NegZero = True"
| "is_neg NegInf = True"
| "is_neg _ = False"

fun is_zero :: "number \<Rightarrow> bool" where
  "is_zero (Num r) = (r = 0)"
| "is_zero NegZero = True"
| "is_zero _ = False"

fun is_inf :: "number \<Rightarrow> bool" where
  "is_inf PosInf = True"
| "is_inf NegInf = True"
| "is_inf _ = False"

definition zero_of :: "bool \<Rightarrow> number" where
  "zero_of neg = (if neg then NegZero else Num 0)"

definition inf_of :: "bool \<Rightarrow> number" where
  "inf_of neg = (if neg then NegInf else PosInf)"

text \<open>The relational operators \<open><\<close>, \<open><=\<close>, \<open>>\<close>, \<open>>=\<close> and \<open>==\<close>: false on NaN.\<close>

fun js_lt :: "number \<Rightarrow> number \<Rightarrow> bool" where
  "js_lt NaN _ = False"
| "js_lt _ NaN = False"
| "js_lt PosInf _ = False"
| "js_lt _ NegInf = False"
| "js_lt NegInf _ = True"
| "js_lt _ PosInf = True"
| "js_lt x y = (val x < val y)"

fun js_le :: "number \<Rightarrow> number \<Rightarrow> bool" where
  "js_le NaN _ = False"
| "js_le _ NaN = False"
| "js_le NegInf _ = True"
| "js_le _ PosInf = True"
| "js_le PosInf _ = False"
| "js_le _ NegInf = False"
| "js_le x y = (val x \<le> val y)"

definition js_gt :: "number \<Rightarrow> number \<Rightarrow> bool" where
  "js_gt x y = js_lt y x"

definition js_ge :: "number \<Rightarrow> number \<Rightarrow> bool" where
  "js_ge x y = js_le y x"

definition js_eq :: "number \<Rightarrow> number \<Rightarrow> bool" where
  "js_eq x y = (js_le x y \<and> js_le y x)"

text \<open>Unary minus, \<open>+\<close>, \<open>-\<close> and \<open>/\<close>, with the signs of zero of IEEE 754.\<close>

fun js_neg :: "number \<Rightarrow> number" where
  "js_neg (Num r) = (if r = 0 then NegZero else Num (- r))"
| "js_neg NegZero = Num 0"
| "js_neg PosInf = NegInf"
| "js_neg NegInf = PosInf"
| "js_neg NaN = NaN"

definition js_add :: "number \<Rightarrow> number \<Rightarrow> number" where
  "js_add x y =
     (if x = NaN \<or> y = NaN then NaN
      else if is_inf x then (if is_inf y \<and> x \<noteq> y then NaN else x)
      else if is_inf y then y
      else if x = NegZero \<and> y = NegZero then NegZero
      else Num (val x + val y))"

definition js_sub :: "number \<Rightarrow> number \<Rightarrow> number" where
  "js_sub x y = js_add x (js_neg y)"

definition js_div :: "number \<Rightarrow> number \<Rightarrow> number" where
  "js_div x y =
     (if x = NaN \<or> y = NaN then NaN
      else if is_inf x then (if is_inf y then NaN else inf_of (is_neg x \<noteq> is_neg y))
      else if is_inf y then zero_of (is_neg x \<noteq> is_neg y)
      else if is_zero y then (if is_zero x then NaN else inf_of (is_neg x \<noteq> is_neg y))
      else if is_zero x then zero_of (is_neg x \<noteq> is_neg y)
      else Num (val x / val y))"

text \<open>\<open>Math.ceil\<close>: a value in \<open>(-1, 0)\<close> goes to \<open>-0\<close>.\<close>

fun js_ceil :: "number \<Rightarrow> number" where
  "js_ceil (Num r) = (if - 1 < r \<and> r < 0 then NegZero else Num (of_int \<lceil>r\<rceil>))"
| "js_ceil x = x"

text \<open>\<open>Math.min\<close> of two arguments: NaN if either is, and \<open>-0\<close> below \<open>+0\<close>.\<close>

definition js_min :: "number \<Rightarrow> number \<Rightarrow> number" where
  "js_min x y =
     (if x = NaN \<or> y = NaN then NaN
      else if js_lt x y then x
      else if js_lt y x then y
      else if is_neg x then x else y)"

section \<open>Arrays that are shared\<close>

text \<open>
  \<open>getBackground\<close> and \<open>multiGeoLineToMultiLine\<close> push an empty array into their result
  and fill it afterwards, so the result holds a reference. The arrays that are filled
  this way live in a store, a list indexed by address; \<open>new_array\<close> allocates an empty
  one and \<open>push\<close> appends to the array at an address. An address always comes from
  \<open>new_array\<close>, so it is in range.
\<close>

type_synonym ref = nat
type_synonym 'a store = "'a list list"

definition new_array :: "'a store \<Rightarrow> ref \<times> 'a store" where
  "new_array h = (length h, h @ [[]])"

definition push :: "ref \<Rightarrow> 'a \<Rightarrow> 'a store \<Rightarrow> 'a store" where
  "push r x h = h[r := h ! r @ [x]]"

definition deref :: "'a store \<Rightarrow> ref \<Rightarrow> 'a list" where
  "deref h r = h ! r"

section \<open>The background tiler\<close>

text \<open>A point of the result is the array \<open>[longitude, latitude]\<close>.\<close>

type_synonym point = "number list"
type_synonym ring = "point list"
type_synonym polygon = "ring list"
type_synonym multiPolygon = "polygon list"

text \<open>
  The four edge loops of \<open>getBackground\<close> (lines 206 to 220). Each pushes points to the
  array \<open>surface\<close>. A loop that never leaves is the value \<open>None\<close>.
\<close>

partial_function (option) topEdge ::
  "number \<Rightarrow> number \<Rightarrow> number \<Rightarrow> number \<Rightarrow> ref \<Rightarrow> point store \<Rightarrow> point store option" where
  "topEdge ll ln' stepLong north surface h =
     (if js_le ll (js_add ln' stepLong)
      then topEdge (js_add ll (Num 5)) ln' stepLong north surface (push surface [ll, north] h)
      else Some h)"

partial_function (option) rightEdge ::
  "number \<Rightarrow> number \<Rightarrow> number \<Rightarrow> number \<Rightarrow> number \<Rightarrow> ref \<Rightarrow> point store \<Rightarrow> point store option" where
  "rightEdge lt ln' stepLong south stepLat surface h =
     (if js_ge lt south
      then rightEdge (js_sub lt stepLat) ln' stepLong south stepLat surface
             (push surface [js_add ln' stepLong, lt] h)
      else Some h)"

partial_function (option) bottomEdge ::
  "number \<Rightarrow> number \<Rightarrow> number \<Rightarrow> ref \<Rightarrow> point store \<Rightarrow> point store option" where
  "bottomEdge ll ln' south surface h =
     (if js_ge ll ln'
      then bottomEdge (js_sub ll (Num 5)) ln' south surface (push surface [ll, south] h)
      else Some h)"

partial_function (option) leftEdge ::
  "number \<Rightarrow> number \<Rightarrow> number \<Rightarrow> number \<Rightarrow> ref \<Rightarrow> point store \<Rightarrow> point store option" where
  "leftEdge lt ln' north stepLat surface h =
     (if js_le lt north
      then leftEdge (js_add lt stepLat) ln' north stepLat surface (push surface [ln', lt] h)
      else Some h)"

text \<open>
  The loop over the slices (lines 198 to 223). Its state is the loop variable \<open>ln\<close>
  (written \<open>ln'\<close>, as \<open>ln\<close> is the logarithm), the variable \<open>stepLong\<close>, which the clamp of
  line 203 assigns, the store and the array \<open>multiPolygon\<close>, whose polygons \<open>[surface]\<close>
  hold the address of their ring.
\<close>

definition clamp :: "number \<Rightarrow> number \<Rightarrow> number \<Rightarrow> number" where
  "clamp ln' stepLong east = (if js_gt (js_add ln' stepLong) east then js_sub east ln' else stepLong)"

partial_function (option) slices ::
  "number \<Rightarrow> number \<Rightarrow> number \<Rightarrow> number \<Rightarrow> number \<Rightarrow> number \<Rightarrow>
   point store \<Rightarrow> ref list list \<Rightarrow> (point store \<times> ref list list) option" where
  "slices ln' stepLong north east south stepLat h multiPolygon =
     (if js_lt ln' east then
        (case new_array h of (surface, h) \<Rightarrow>
           let multiPolygon = multiPolygon @ [[surface]];
               stepLong = clamp ln' stepLong east
           in do {
             h \<leftarrow> topEdge ln' ln' stepLong north surface h;
             h \<leftarrow> rightEdge north ln' stepLong south stepLat surface h;
             h \<leftarrow> bottomEdge (js_add ln' stepLong) ln' south surface h;
             h \<leftarrow> leftEdge south ln' north stepLat surface h;
             slices (js_add ln' stepLong) stepLong north east south stepLat h multiPolygon
           })
      else Some (h, multiPolygon))"

text \<open>
  \<open>getBackground\<close>: the nudge of the exact extrema (lines 181 to 192), the two steps
  (lines 195 and 196), the loop, and the value of \<open>multiPolygon\<close> that is returned, read
  through the store. \<open>1799999 / 10000\<close> is the literal \<open>179.9999\<close>.
\<close>

definition stepLong_of :: "number \<Rightarrow> number \<Rightarrow> number" where
  "stepLong_of east west =
     js_min (Num 90) (js_div (js_sub east west) (js_ceil (js_div (js_sub east west) (Num 90))))"

definition stepLat_of :: "number \<Rightarrow> number \<Rightarrow> number" where
  "stepLat_of north south =
     js_div (js_sub north south) (js_ceil (js_div (js_sub north south) (Num 90)))"

definition tiles :: "number \<Rightarrow> number \<Rightarrow> number \<Rightarrow> number \<Rightarrow> multiPolygon option" where
  "tiles north east south west =
     (let stepLong = stepLong_of east west;
          stepLat = stepLat_of north south
      in map_option (\<lambda>(h, multiPolygon). map (map (deref h)) multiPolygon)
           (slices west stepLong north east south stepLat [] []))"

definition getBackground :: "number \<Rightarrow> number \<Rightarrow> number \<Rightarrow> number \<Rightarrow> multiPolygon option" where
  "getBackground north east south west =
     (let west = (if js_eq west (Num (- 180)) then Num (- (1799999 / 10000)) else west);
          south = (if js_eq south (Num (- 90)) then Num (- (899999 / 10000)) else south);
          north = (if js_eq north (Num 90) then Num (899999 / 10000) else north);
          east = (if js_eq east (Num 180) then Num (1799999 / 10000) else east)
      in tiles north east south west)"

section \<open>The coordinate mapper\<close>

text \<open>
  A slot of a \<open>number[]\<close> holds a number or, at run time, \<open>undefined\<close> (\<open>None\<close>); reading
  an array beyond its length gives \<open>undefined\<close> as well. A polygon is an array of ring
  slots: the converters test \<open>surface\<close> and \<open>hole\<close> for truth, and an array, even an empty
  one, is true, so the test fails exactly on a slot that is absent (\<open>None\<close>).
\<close>

type_synonym coord = "number option"
type_synonym xy = "coord list"

record geoPoint =
  longitude :: coord
  latitude :: coord

definition get :: "'a option list \<Rightarrow> nat \<Rightarrow> 'a option" where
  "get xs i = (if i < length xs then xs ! i else None)"

text \<open>
  \<open>xs[i] = v\<close>. The loops below write index \<open>i\<close> when the array has \<open>i\<close> elements, which
  appends; an index beyond the length, which would leave holes, does not occur in them.
\<close>

definition assign :: "'a list \<Rightarrow> nat \<Rightarrow> 'a \<Rightarrow> 'a list" where
  "assign xs i v = (if i < length xs then xs[i := v] else xs @ [v])"

definition pointToGeo :: "xy \<Rightarrow> geoPoint" where
  "pointToGeo point = \<lparr>longitude = get point 0, latitude = get point 1\<rparr>"

text \<open>
  The \<open>for\<close> loops run \<open>i\<close> from 0 to the length of their argument, which they do not
  change; the cached \<open>len\<close> is that length.
\<close>

function multiPointToGeo_loop :: "nat \<Rightarrow> xy list \<Rightarrow> geoPoint list \<Rightarrow> geoPoint list" where
  "multiPointToGeo_loop i points geoPoints =
     (if i < length points
      then multiPointToGeo_loop (i + 1) points (geoPoints @ [pointToGeo (points ! i)])
      else geoPoints)"
  by pat_completeness auto
termination
  by (relation "measure (\<lambda>(i, points, geoPoints). length points - i)") auto

definition multiPointToGeo :: "xy list \<Rightarrow> geoPoint list" where
  "multiPointToGeo points = multiPointToGeo_loop 0 points []"

function multiGeoToPoint_loop :: "nat \<Rightarrow> geoPoint list \<Rightarrow> xy list \<Rightarrow> xy list" where
  "multiGeoToPoint_loop i geoPoints points =
     (if i < length geoPoints
      then multiGeoToPoint_loop (i + 1) geoPoints
             (points @ [[longitude (geoPoints ! i), latitude (geoPoints ! i)]])
      else points)"
  by pat_completeness auto
termination
  by (relation "measure (\<lambda>(i, geoPoints, points). length geoPoints - i)") auto

definition multiGeoToPoint :: "geoPoint list \<Rightarrow> xy list" where
  "multiGeoToPoint geoPoints = multiGeoToPoint_loop 0 geoPoints []"

function multiLineToGeo_loop :: "nat \<Rightarrow> xy list list \<Rightarrow> geoPoint list list \<Rightarrow> geoPoint list list" where
  "multiLineToGeo_loop i multiLine multiGeoLine =
     (if i < length multiLine
      then multiLineToGeo_loop (i + 1) multiLine (multiGeoLine @ [multiPointToGeo (multiLine ! i)])
      else multiGeoLine)"
  by pat_completeness auto
termination
  by (relation "measure (\<lambda>(i, multiLine, multiGeoLine). length multiLine - i)") auto

definition multiLineToGeo :: "xy list list \<Rightarrow> geoPoint list list" where
  "multiLineToGeo multiLine = multiLineToGeo_loop 0 multiLine []"

text \<open>
  The polygon converters. \<open>multiGeoArea[i].push(x)\<close> appends to the array at index \<open>i\<close> of
  \<open>multiGeoArea\<close>, which is \<open>push i x\<close>.
\<close>

function multiPolygonToGeo_loop ::
  "nat \<Rightarrow> xy list option list list \<Rightarrow> geoPoint list option list list \<Rightarrow>
   geoPoint list option list list" where
  "multiPolygonToGeo_loop i multiPolygon multiGeoArea =
     (if i < length multiPolygon then
        let surface = get (multiPolygon ! i) 0;
            hole = get (multiPolygon ! i) 1;
            multiGeoArea = assign multiGeoArea i [];
            multiGeoArea = (case surface of
                              Some ring \<Rightarrow> push i (Some (multiPointToGeo ring)) multiGeoArea
                            | None \<Rightarrow> multiGeoArea);
            multiGeoArea = (case hole of
                              Some ring \<Rightarrow> push i (Some (multiPointToGeo ring)) multiGeoArea
                            | None \<Rightarrow> multiGeoArea)
        in multiPolygonToGeo_loop (i + 1) multiPolygon multiGeoArea
      else multiGeoArea)"
  by pat_completeness auto
termination
  by (relation "measure (\<lambda>(i, multiPolygon, multiGeoArea). length multiPolygon - i)") auto

definition multiPolygonToGeo :: "xy list option list list \<Rightarrow> geoPoint list option list list" where
  "multiPolygonToGeo multiPolygon = multiPolygonToGeo_loop 0 multiPolygon []"

function multiGeoPolygonToMultipolygon_loop ::
  "nat \<Rightarrow> geoPoint list option list list \<Rightarrow> xy list option list list \<Rightarrow>
   xy list option list list" where
  "multiGeoPolygonToMultipolygon_loop i multiGeoPolygon multiPolygon =
     (if i < length multiGeoPolygon then
        let surface = get (multiGeoPolygon ! i) 0;
            hole = get (multiGeoPolygon ! i) 1;
            multiPolygon = assign multiPolygon i [];
            multiPolygon = (case surface of
                              Some ring \<Rightarrow> push i (Some (multiGeoToPoint ring)) multiPolygon
                            | None \<Rightarrow> multiPolygon);
            multiPolygon = (case hole of
                              Some ring \<Rightarrow> push i (Some (multiGeoToPoint ring)) multiPolygon
                            | None \<Rightarrow> multiPolygon)
        in multiGeoPolygonToMultipolygon_loop (i + 1) multiGeoPolygon multiPolygon
      else multiPolygon)"
  by pat_completeness auto
termination
  by (relation "measure (\<lambda>(i, multiGeoPolygon, multiPolygon). length multiGeoPolygon - i)") auto

definition multiGeoPolygonToMultipolygon ::
  "geoPoint list option list list \<Rightarrow> xy list option list list" where
  "multiGeoPolygonToMultipolygon multiGeoPolygon =
     multiGeoPolygonToMultipolygon_loop 0 multiGeoPolygon []"

text \<open>
  Modelled from the spec: \<open>$array.each\<close> of \<open>core/utils/Array\<close> is not among the sources.
  The spec has the mapper visit every element in index order, never dropping or
  reordering one, so \<open>each\<close> calls the function on every element, first to last. The
  function changes the state \<open>'s\<close>, which is the store and the variables it assigns.
\<close>

fun each :: "'a list \<Rightarrow> ('a \<Rightarrow> 's \<Rightarrow> 's) \<Rightarrow> 's \<Rightarrow> 's" where
  "each [] fn st = st"
| "each (x # xs) fn st = each xs fn (fn x st)"

text \<open>
  \<open>multiGeoLineToMultiLine\<close> pushes the array \<open>multiLineSegment\<close> to \<open>multiLine\<close> while it
  is empty and fills it afterwards: \<open>multiLine\<close> holds addresses, read through the store
  when the function returns.
\<close>

definition multiGeoLineToMultiLine :: "geoPoint list list \<Rightarrow> xy list list" where
  "multiGeoLineToMultiLine multiGeoLine =
     (case each multiGeoLine
             (\<lambda>segment (h, multiLine).
                case new_array h of (multiLineSegment, h) \<Rightarrow>
                  (each segment
                     (\<lambda>geoPoint. push multiLineSegment [longitude geoPoint, latitude geoPoint]) h,
                   multiLine @ [multiLineSegment]))
             ([], [])
      of (h, multiLine) \<Rightarrow> map (deref h) multiLine)"

section \<open>The ring of a slice in closed form\<close>

text \<open>
  The extrema after the nudge, on finite values, and what the four loops push for a
  slice that starts at longitude \<open>ln'\<close> and is \<open>st\<close> wide,
  written without recursion. \<open>reach x d\<close> counts the values \<open>0, d, 2 d, ...\<close> that do not
  exceed \<open>x\<close>. A latitude loop runs once when \<open>stepLat\<close> is not finite (its variable is
  NaN or infinite after the first step) and not at all when north is below south.
\<close>

definition nudged_west :: "rat \<Rightarrow> rat" where
  "nudged_west west = (if west = - 180 then - (1799999 / 10000) else west)"

definition nudged_south :: "rat \<Rightarrow> rat" where
  "nudged_south south = (if south = - 90 then - (899999 / 10000) else south)"

definition nudged_north :: "rat \<Rightarrow> rat" where
  "nudged_north north = (if north = 90 then 899999 / 10000 else north)"

definition nudged_east :: "rat \<Rightarrow> rat" where
  "nudged_east east = (if east = 180 then 1799999 / 10000 else east)"

definition slice_count :: "rat \<Rightarrow> rat \<Rightarrow> nat" where
  "slice_count east west = nat \<lceil>(east - west) / 90\<rceil>"

definition slice_width :: "rat \<Rightarrow> rat \<Rightarrow> rat" where
  "slice_width east west = (east - west) / of_nat (slice_count east west)"

definition reach :: "rat \<Rightarrow> rat \<Rightarrow> nat" where
  "reach x d = nat (\<lfloor>x / d\<rfloor> + 1)"

definition lat_count :: "rat \<Rightarrow> rat \<Rightarrow> number \<Rightarrow> nat" where
  "lat_count north south stepLat =
     (if north < south then 0 else case stepLat of Num d \<Rightarrow> reach (north - south) d | _ \<Rightarrow> 1)"

definition top_points :: "rat \<Rightarrow> rat \<Rightarrow> rat \<Rightarrow> ring" where
  "top_points ln' st north = map (\<lambda>i. [Num (ln' + 5 * of_nat i), Num north]) [0..<reach st 5]"

definition right_points :: "rat \<Rightarrow> rat \<Rightarrow> rat \<Rightarrow> rat \<Rightarrow> number \<Rightarrow> ring" where
  "right_points ln' st north south stepLat =
     map (\<lambda>i. [Num (ln' + st), Num (north - val stepLat * of_nat i)])
       [0..<lat_count north south stepLat]"

definition bottom_points :: "rat \<Rightarrow> rat \<Rightarrow> rat \<Rightarrow> ring" where
  "bottom_points ln' st south =
     map (\<lambda>i. [Num (ln' + st - 5 * of_nat i), Num south]) [0..<reach st 5]"

definition left_points :: "rat \<Rightarrow> rat \<Rightarrow> rat \<Rightarrow> number \<Rightarrow> ring" where
  "left_points ln' north south stepLat =
     map (\<lambda>i. [Num ln', Num (south + val stepLat * of_nat i)])
       [0..<lat_count north south stepLat]"

definition lat_ok :: "rat \<Rightarrow> rat \<Rightarrow> number \<Rightarrow> bool" where
  "lat_ok north south stepLat =
     (north < south \<or> stepLat = NaN \<or> (\<exists>d. stepLat = Num d \<and> 0 < d))"

definition ring_of :: "rat \<Rightarrow> rat \<Rightarrow> rat \<Rightarrow> rat \<Rightarrow> number \<Rightarrow> ring" where
  "ring_of ln' st north south stepLat =
     top_points ln' st north @ right_points ln' st north south stepLat @
     bottom_points ln' st south @ left_points ln' north south stepLat"


text \<open>A point at a pole or on the antimeridian, as \<open>==\<close> compares.\<close>

fun on_extreme :: "point \<Rightarrow> bool" where
  "on_extreme [lon, lat] =
     (js_eq lat (Num 90) \<or> js_eq lat (Num (- 90)) \<or>
      js_eq lon (Num 180) \<or> js_eq lon (Num (- 180)))"
| "on_extreme p = False"

section \<open>The converters in closed form\<close>

text \<open>
  \<open>geoToPoint\<close> is the array \<open>[geoPoint.longitude, geoPoint.latitude]\<close> that
  \<open>multiGeoToPoint\<close> and \<open>multiGeoLineToMultiLine\<close> build. \<open>present\<close> lists the rings
  that a polygon converter finds: slot 0 if it is there, then slot 1 if it is there.
\<close>

definition geoToPoint :: "geoPoint \<Rightarrow> xy" where
  "geoToPoint geoPoint = [longitude geoPoint, latitude geoPoint]"

definition present :: "'a option list \<Rightarrow> 'a list" where
  "present slots =
     (case get slots 0 of Some r \<Rightarrow> [r] | None \<Rightarrow> []) @
     (case get slots 1 of Some r \<Rightarrow> [r] | None \<Rightarrow> [])"

declare multiPointToGeo_loop.simps [simp del] multiGeoToPoint_loop.simps [simp del]
  multiLineToGeo_loop.simps [simp del] multiPolygonToGeo_loop.simps [simp del]
  multiGeoPolygonToMultipolygon_loop.simps [simp del]

section \<open>Arithmetic on finite numbers\<close>

lemma js_le_Num [simp]: "js_le (Num a) (Num b) = (a \<le> b)" by simp
lemma js_lt_Num [simp]: "js_lt (Num a) (Num b) = (a < b)" by simp
lemma js_ge_Num [simp]: "js_ge (Num a) (Num b) = (b \<le> a)" by (simp add: js_ge_def)
lemma js_gt_Num [simp]: "js_gt (Num a) (Num b) = (b < a)" by (simp add: js_gt_def)
lemma js_eq_Num [simp]: "js_eq (Num a) (Num b) = (a = b)" by (auto simp: js_eq_def)
lemma js_add_Num [simp]: "js_add (Num a) (Num b) = Num (a + b)" by (simp add: js_add_def)
lemma js_sub_Num [simp]: "js_sub (Num a) (Num b) = Num (a - b)" by (simp add: js_sub_def js_add_def)
lemma js_div_Num: "0 < a \<Longrightarrow> 0 < b \<Longrightarrow> js_div (Num a) (Num b) = Num (a / b)"
  by (auto simp: js_div_def zero_of_def)
lemma js_min_Num [simp]: "js_min (Num a) (Num b) = Num (min a b)"
  by (auto simp: js_min_def min_def)
lemma js_ceil_Num: "0 \<le> r \<Longrightarrow> js_ceil (Num r) = Num (of_int \<lceil>r\<rceil>)" by simp

section \<open>The edge loops\<close>

lemma topEdge_steps:
  "surface < length h \<Longrightarrow> (\<forall>i<k. a + 5 * of_nat i \<le> l + st) \<Longrightarrow> \<not> a + 5 * of_nat k \<le> l + st \<Longrightarrow>
   topEdge (Num a) (Num l) (Num st) north surface h =
     Some (h[surface := h ! surface @ map (\<lambda>i. [Num (a + 5 * of_nat i), north]) [0..<k]])"
proof (induction k arbitrary: a h)
  case 0
  then show ?case by (subst topEdge.simps) simp
next
  case (Suc k)
  from Suc.prems(2) have a0: "a \<le> l + st" by force
  have step: "\<forall>i<k. (a + 5) + 5 * of_nat i \<le> l + st"
  proof (intro allI impI)
    fix i assume "i < k"
    then have "a + 5 * of_nat (Suc i) \<le> l + st" using Suc.prems(2) by blast
    then show "(a + 5) + 5 * of_nat i \<le> l + st" by (simp add: algebra_simps)
  qed
  have stop: "\<not> (a + 5) + 5 * of_nat k \<le> l + st"
    using Suc.prems(3) by (simp add: algebra_simps)
  have len: "surface < length (push surface [Num a, north] h)"
    using Suc.prems(1) by (simp add: push_def)
  have "topEdge (Num a) (Num l) (Num st) north surface h =
        topEdge (Num (a + 5)) (Num l) (Num st) north surface (push surface [Num a, north] h)"
    by (subst topEdge.simps) (simp add: a0)
  also note Suc.IH [OF len step stop]
  also have "Some ((push surface [Num a, north] h)[surface := push surface [Num a, north] h ! surface @
        map (\<lambda>i. [Num (a + 5 + 5 * of_nat i), north]) [0..<k]]) =
      Some (h[surface := h ! surface @ map (\<lambda>i. [Num (a + 5 * of_nat i), north]) [0..<Suc k]])"
    using Suc.prems(1) by (subst map_upt_Suc) (simp add: push_def add.assoc)
  finally show ?case .
qed

lemma reach_iff: "0 < d \<Longrightarrow> (i < reach x d) = (d * of_nat i \<le> x)"
proof -
  assume d: "0 < d"
  have "(i < reach x d) = (int i \<le> \<lfloor>x / d\<rfloor>)"
    by (auto simp: reach_def)
  also have "\<dots> = (of_int (int i) \<le> x / d)"
    by (simp only: le_floor_iff)
  also have "\<dots> = (d * of_nat i \<le> x)"
    using d by (simp add: pos_le_divide_eq mult.commute)
  finally show ?thesis .
qed

lemma topEdge_Num:
  assumes "surface < length h"
  shows "topEdge (Num l) (Num l) (Num st) (Num n) surface h =
           Some (h[surface := h ! surface @ top_points l st n])"
proof -
  have 1: "\<forall>i<reach st 5. l + 5 * of_nat i \<le> l + st"
    by (simp add: reach_iff)
  have 2: "\<not> l + 5 * of_nat (reach st 5) \<le> l + st"
    using reach_iff [of 5 "reach st 5" st] by simp
  show ?thesis
    unfolding top_points_def by (rule topEdge_steps [OF assms 1 2])
qed

lemma bottomEdge_steps:
  "surface < length h \<Longrightarrow> (\<forall>i<k. l \<le> a - 5 * of_nat i) \<Longrightarrow> \<not> l \<le> a - 5 * of_nat k \<Longrightarrow>
   bottomEdge (Num a) (Num l) south surface h =
     Some (h[surface := h ! surface @ map (\<lambda>i. [Num (a - 5 * of_nat i), south]) [0..<k]])"
proof (induction k arbitrary: a h)
  case 0
  then show ?case by (subst bottomEdge.simps) simp
next
  case (Suc k)
  from Suc.prems(2) have a0: "l \<le> a" by force
  have step: "\<forall>i<k. l \<le> (a - 5) - 5 * of_nat i"
  proof (intro allI impI)
    fix i assume "i < k"
    then have "l \<le> a - 5 * of_nat (Suc i)" using Suc.prems(2) by blast
    then show "l \<le> (a - 5) - 5 * of_nat i" by (simp add: algebra_simps)
  qed
  have stop: "\<not> l \<le> (a - 5) - 5 * of_nat k"
    using Suc.prems(3) by (simp add: algebra_simps)
  have len: "surface < length (push surface [Num a, south] h)"
    using Suc.prems(1) by (simp add: push_def)
  have "bottomEdge (Num a) (Num l) south surface h =
        bottomEdge (Num (a - 5)) (Num l) south surface (push surface [Num a, south] h)"
    by (subst bottomEdge.simps) (simp add: a0)
  also note Suc.IH [OF len step stop]
  also have "Some ((push surface [Num a, south] h)[surface := push surface [Num a, south] h ! surface @
        map (\<lambda>i. [Num (a - 5 - 5 * of_nat i), south]) [0..<k]]) =
      Some (h[surface := h ! surface @ map (\<lambda>i. [Num (a - 5 * of_nat i), south]) [0..<Suc k]])"
    using Suc.prems(1) by (subst map_upt_Suc) (simp add: push_def algebra_simps)
  finally show ?case .
qed

lemma bottomEdge_Num:
  assumes "surface < length h"
  shows "bottomEdge (Num (l + st)) (Num l) (Num s) surface h =
           Some (h[surface := h ! surface @ bottom_points l st s])"
proof -
  have 1: "\<forall>i<reach st 5. l \<le> l + st - 5 * of_nat i"
    by (simp add: reach_iff)
  have 2: "\<not> l \<le> l + st - 5 * of_nat (reach st 5)"
    using reach_iff [of 5 "reach st 5" st] by simp
  show ?thesis
    unfolding bottom_points_def by (rule bottomEdge_steps [OF assms 1 2])
qed

lemma rightEdge_steps:
  "surface < length h \<Longrightarrow> (\<forall>i<k. s \<le> a - d * of_nat i) \<Longrightarrow> \<not> s \<le> a - d * of_nat k \<Longrightarrow>
   rightEdge (Num a) l st (Num s) (Num d) surface h =
     Some (h[surface := h ! surface @ map (\<lambda>i. [js_add l st, Num (a - d * of_nat i)]) [0..<k]])"
proof (induction k arbitrary: a h)
  case 0
  then show ?case by (subst rightEdge.simps) simp
next
  case (Suc k)
  from Suc.prems(2) have a0: "s \<le> a" by force
  have step: "\<forall>i<k. s \<le> (a - d) - d * of_nat i"
  proof (intro allI impI)
    fix i assume "i < k"
    then have "s \<le> a - d * of_nat (Suc i)" using Suc.prems(2) by blast
    then show "s \<le> (a - d) - d * of_nat i" by (simp add: algebra_simps)
  qed
  have stop: "\<not> s \<le> (a - d) - d * of_nat k"
    using Suc.prems(3) by (simp add: algebra_simps)
  have len: "surface < length (push surface [js_add l st, Num a] h)"
    using Suc.prems(1) by (simp add: push_def)
  have "rightEdge (Num a) l st (Num s) (Num d) surface h =
        rightEdge (Num (a - d)) l st (Num s) (Num d) surface (push surface [js_add l st, Num a] h)"
    by (subst rightEdge.simps) (simp add: a0)
  also note Suc.IH [OF len step stop]
  also have "Some ((push surface [js_add l st, Num a] h)[surface :=
        push surface [js_add l st, Num a] h ! surface @
        map (\<lambda>i. [js_add l st, Num (a - d - d * of_nat i)]) [0..<k]]) =
      Some (h[surface := h ! surface @ map (\<lambda>i. [js_add l st, Num (a - d * of_nat i)]) [0..<Suc k]])"
    using Suc.prems(1) by (subst map_upt_Suc) (simp add: push_def algebra_simps)
  finally show ?case .
qed

lemma leftEdge_steps:
  "surface < length h \<Longrightarrow> (\<forall>i<k. a + d * of_nat i \<le> n) \<Longrightarrow> \<not> a + d * of_nat k \<le> n \<Longrightarrow>
   leftEdge (Num a) l (Num n) (Num d) surface h =
     Some (h[surface := h ! surface @ map (\<lambda>i. [l, Num (a + d * of_nat i)]) [0..<k]])"
proof (induction k arbitrary: a h)
  case 0
  then show ?case by (subst leftEdge.simps) simp
next
  case (Suc k)
  from Suc.prems(2) have a0: "a \<le> n" by force
  have step: "\<forall>i<k. (a + d) + d * of_nat i \<le> n"
  proof (intro allI impI)
    fix i assume "i < k"
    then have "a + d * of_nat (Suc i) \<le> n" using Suc.prems(2) by blast
    then show "(a + d) + d * of_nat i \<le> n" by (simp add: algebra_simps)
  qed
  have stop: "\<not> (a + d) + d * of_nat k \<le> n"
    using Suc.prems(3) by (simp add: algebra_simps)
  have len: "surface < length (push surface [l, Num a] h)"
    using Suc.prems(1) by (simp add: push_def)
  have "leftEdge (Num a) l (Num n) (Num d) surface h =
        leftEdge (Num (a + d)) l (Num n) (Num d) surface (push surface [l, Num a] h)"
    by (subst leftEdge.simps) (simp add: a0)
  also note Suc.IH [OF len step stop]
  also have "Some ((push surface [l, Num a] h)[surface := push surface [l, Num a] h ! surface @
        map (\<lambda>i. [l, Num (a + d + d * of_nat i)]) [0..<k]]) =
      Some (h[surface := h ! surface @ map (\<lambda>i. [l, Num (a + d * of_nat i)]) [0..<Suc k]])"
    using Suc.prems(1) by (subst map_upt_Suc) (simp add: push_def algebra_simps)
  finally show ?case .
qed

lemma rightEdge_Num:
  assumes "surface < length h" and "lat_ok n s stepLat"
  shows "rightEdge (Num n) (Num l) (Num st) (Num s) stepLat surface h =
           Some (h[surface := h ! surface @ right_points l st n s stepLat])"
proof -
  consider (below) "n < s" | (nan) "s \<le> n" "stepLat = NaN" | (fin) d where "s \<le> n" "stepLat = Num d" "0 < d"
    using assms(2) by (cases "n < s") (auto simp: lat_ok_def)
  then show ?thesis
  proof cases
    case below
    then show ?thesis
      by (subst rightEdge.simps) (simp add: right_points_def lat_count_def)
  next
    case nan
    have "rightEdge (Num n) (Num l) (Num st) (Num s) NaN surface h =
          rightEdge NaN (Num l) (Num st) (Num s) NaN surface (push surface [Num (l + st), Num n] h)"
      by (subst rightEdge.simps) (simp add: nan(1) js_sub_def js_add_def)
    also have "\<dots> = Some (push surface [Num (l + st), Num n] h)"
      by (subst rightEdge.simps) (simp add: js_ge_def)
    finally show ?thesis
      using nan by (simp add: right_points_def lat_count_def push_def)
  next
    case fin
    have 1: "\<forall>i<reach (n - s) d. s \<le> n - d * of_nat i"
      using fin(3) by (simp add: reach_iff algebra_simps)
    have 2: "\<not> s \<le> n - d * of_nat (reach (n - s) d)"
      using reach_iff [OF fin(3), of "reach (n - s) d" "n - s"] by (simp add: algebra_simps)
    show ?thesis
      using rightEdge_steps [OF assms(1) 1 2, of "Num l" "Num st"] fin
      by (simp add: right_points_def lat_count_def)
  qed
qed

lemma leftEdge_Num:
  assumes "surface < length h" and "lat_ok n s stepLat"
  shows "leftEdge (Num s) (Num l) (Num n) stepLat surface h =
           Some (h[surface := h ! surface @ left_points l n s stepLat])"
proof -
  consider (below) "n < s" | (nan) "s \<le> n" "stepLat = NaN" | (fin) d where "s \<le> n" "stepLat = Num d" "0 < d"
    using assms(2) by (cases "n < s") (auto simp: lat_ok_def)
  then show ?thesis
  proof cases
    case below
    then show ?thesis
      by (subst leftEdge.simps) (simp add: left_points_def lat_count_def)
  next
    case nan
    have "leftEdge (Num s) (Num l) (Num n) NaN surface h =
          leftEdge NaN (Num l) (Num n) NaN surface (push surface [Num l, Num s] h)"
      by (subst leftEdge.simps) (simp add: nan(1) js_add_def)
    also have "\<dots> = Some (push surface [Num l, Num s] h)"
      by (subst leftEdge.simps) simp
    finally show ?thesis
      using nan by (simp add: left_points_def lat_count_def push_def)
  next
    case fin
    have 1: "\<forall>i<reach (n - s) d. s + d * of_nat i \<le> n"
      using fin(3) by (simp add: reach_iff algebra_simps)
    have 2: "\<not> s + d * of_nat (reach (n - s) d) \<le> n"
      using reach_iff [OF fin(3), of "reach (n - s) d" "n - s"] by (simp add: algebra_simps)
    show ?thesis
      using leftEdge_steps [OF assms(1) 1 2, of "Num l"] fin
      by (simp add: left_points_def lat_count_def)
  qed
qed


section \<open>The slice loop\<close>

lemma slice_ring:
  assumes "lat_ok n s stepLat"
  shows "do {
           h1 \<leftarrow> topEdge (Num l) (Num l) (Num st) (Num n) (length h) (h @ [[]]);
           h2 \<leftarrow> rightEdge (Num n) (Num l) (Num st) (Num s) stepLat (length h) h1;
           h3 \<leftarrow> bottomEdge (Num (l + st)) (Num l) (Num s) (length h) h2;
           h4 \<leftarrow> leftEdge (Num s) (Num l) (Num n) stepLat (length h) h3;
           f h4
         } = f (h @ [ring_of l st n s stepLat])"
proof -
  have t: "topEdge (Num l) (Num l) (Num st) (Num n) (length h) (h @ [[]]) =
           Some (h @ [top_points l st n])"
    by (subst topEdge_Num) simp_all
  have r: "rightEdge (Num n) (Num l) (Num st) (Num s) stepLat (length h) (h @ [top_points l st n]) =
           Some (h @ [top_points l st n @ right_points l st n s stepLat])"
    by (subst rightEdge_Num [OF _ assms]) simp_all
  have b: "bottomEdge (Num (l + st)) (Num l) (Num s) (length h)
             (h @ [top_points l st n @ right_points l st n s stepLat]) =
           Some (h @ [top_points l st n @ right_points l st n s stepLat @ bottom_points l st s])"
    by (subst bottomEdge_Num) simp_all
  have l: "leftEdge (Num s) (Num l) (Num n) stepLat (length h)
             (h @ [top_points l st n @ right_points l st n s stepLat @ bottom_points l st s]) =
           Some (h @ [ring_of l st n s stepLat])"
    by (subst leftEdge_Num [OF _ assms]) (simp_all add: ring_of_def)
  show ?thesis by (simp add: t r b l)
qed

lemma slices_steps:
  assumes "0 < st" and "lat_ok n s stepLat"
  shows "l + of_nat r * st = e \<Longrightarrow>
         slices (Num l) (Num st) (Num n) (Num e) (Num s) stepLat h mp =
           Some (h @ map (\<lambda>j. ring_of (l + of_nat j * st) st n s stepLat) [0..<r],
                 mp @ map (\<lambda>j. [length h + j]) [0..<r])"
proof (induction r arbitrary: l h mp)
  case 0
  then show ?case by (subst slices.simps) simp
next
  case (Suc r)
  have nonneg: "0 \<le> of_nat r * st" using assms(1) by simp
  have next_l: "(l + st) + of_nat r * st = e" using Suc.prems by (simp add: algebra_simps)
  have lt: "l < e" using next_l assms(1) nonneg by linarith
  have noclamp: "\<not> e < l + st" using next_l nonneg by linarith
  have "slices (Num l) (Num st) (Num n) (Num e) (Num s) stepLat h mp =
        slices (Num (l + st)) (Num st) (Num n) (Num e) (Num s) stepLat
          (h @ [ring_of l st n s stepLat]) (mp @ [[length h]])"
    by (subst slices.simps) (simp add: lt noclamp new_array_def clamp_def slice_ring [OF assms(2)])
  also note Suc.IH [OF next_l]
  also have "Some ((h @ [ring_of l st n s stepLat]) @
                map (\<lambda>j. ring_of (l + st + of_nat j * st) st n s stepLat) [0..<r],
              (mp @ [[length h]]) @ map (\<lambda>j. [length (h @ [ring_of l st n s stepLat]) + j]) [0..<r]) =
        Some (h @ map (\<lambda>j. ring_of (l + of_nat j * st) st n s stepLat) [0..<Suc r],
              mp @ map (\<lambda>j. [length h + j]) [0..<Suc r])"
    by (subst (1 2) map_upt_Suc) (simp add: algebra_simps)
  finally show ?case .
qed


section \<open>The steps\<close>

lemma ceil_pos: "0 < (x::rat) \<Longrightarrow> 0 < \<lceil>x / 90\<rceil>"
  by (simp add: ceiling_less_iff)

lemma slice_count_pos: "w < e \<Longrightarrow> 0 < slice_count e w"
  using ceil_pos [of "e - w"] by (simp add: slice_count_def)

lemma of_nat_slice_count: "w < e \<Longrightarrow> of_nat (slice_count e w) = (of_int \<lceil>(e - w) / 90\<rceil> :: rat)"
  using ceil_pos [of "e - w"] by (simp add: slice_count_def)

lemma slice_width_pos: "w < e \<Longrightarrow> 0 < slice_width e w"
  using slice_count_pos [of w e] by (simp add: slice_width_def)

lemma slice_width_le_90: assumes "w < e" shows "slice_width e w \<le> 90"
proof -
  define c :: rat where "c = of_int \<lceil>(e - w) / 90\<rceil>"
  have c: "0 < c" unfolding c_def using ceil_pos [of "e - w"] assms by simp
  have "(e - w) / 90 \<le> c" unfolding c_def by (rule le_of_int_ceiling)
  then have "e - w \<le> 90 * c" by simp
  then have "(e - w) / c \<le> 90"
    using c by (simp add: pos_divide_le_eq)
  then show ?thesis by (simp add: slice_width_def of_nat_slice_count [OF assms] c_def)
qed

lemma slices_cover: "w < e \<Longrightarrow> w + of_nat (slice_count e w) * slice_width e w = e"
  using slice_count_pos [of w e] by (simp add: slice_width_def)

lemma stepLong_of_Num:
  assumes "w < e"
  shows "stepLong_of (Num e) (Num w) = Num (slice_width e w)"
proof -
  have c: "0 < (of_int \<lceil>(e - w) / 90\<rceil> :: rat)" using ceil_pos [of "e - w"] assms by simp
  have d: "js_div (Num (e - w)) (Num 90) = Num ((e - w) / 90)"
    using assms by (simp add: js_div_Num)
  have "stepLong_of (Num e) (Num w) = Num (min 90 ((e - w) / of_int \<lceil>(e - w) / 90\<rceil>))"
    using assms by (simp add: stepLong_of_def d js_div_Num [OF _ c])
  also have "\<dots> = Num (slice_width e w)"
    using slice_width_le_90 [OF assms] by (simp add: slice_width_def of_nat_slice_count [OF assms])
  finally show ?thesis .
qed

lemma stepLat_of_above:
  assumes "s < n"
  shows "stepLat_of (Num n) (Num s) = Num (slice_width n s)"
proof -
  have c: "0 < (of_int \<lceil>(n - s) / 90\<rceil> :: rat)" using ceil_pos [of "n - s"] assms by simp
  have d: "js_div (Num (n - s)) (Num 90) = Num ((n - s) / 90)"
    using assms by (simp add: js_div_Num)
  show ?thesis
    using assms by (simp add: stepLat_of_def d js_div_Num [OF _ c] slice_width_def of_nat_slice_count [OF assms])
qed

lemma stepLat_of_equal: "stepLat_of (Num n) (Num n) = NaN"
  by (simp add: stepLat_of_def js_div_def zero_of_def)

lemma lat_ok_stepLat_of: "lat_ok n s (stepLat_of (Num n) (Num s))"
proof -
  consider "n < s" | "n = s" | "s < n" by linarith
  then show ?thesis
  proof cases
    case 1 then show ?thesis by (simp add: lat_ok_def)
  next
    case 2 then show ?thesis by (simp add: lat_ok_def stepLat_of_equal)
  next
    case 3 then show ?thesis
      using slice_width_pos [OF 3] by (simp add: lat_ok_def stepLat_of_above)
  qed
qed

lemma deref_rings: "map (map (deref (map f [0..<k]))) (map (\<lambda>j. [j]) [0..<k]) = map (\<lambda>j. [f j]) [0..<k]"
  by (simp add: deref_def)

lemma tiles_Num:
  assumes "w < e"
  shows "tiles (Num n) (Num e) (Num s) (Num w) =
           Some (map (\<lambda>j. [ring_of (w + of_nat j * slice_width e w) (slice_width e w) n s
                              (stepLat_of (Num n) (Num s))])
                   [0..<slice_count e w])"
proof -
  have sl: "slices (Num w) (Num (slice_width e w)) (Num n) (Num e) (Num s)
              (stepLat_of (Num n) (Num s)) [] [] =
            Some (map (\<lambda>j. ring_of (w + of_nat j * slice_width e w) (slice_width e w) n s
                              (stepLat_of (Num n) (Num s))) [0..<slice_count e w],
                  map (\<lambda>j. [j]) [0..<slice_count e w])"
    using slices_steps [OF slice_width_pos [OF assms] lat_ok_stepLat_of slices_cover [OF assms],
            of n s "[]" "[]"]
    by simp
  show ?thesis
    unfolding tiles_def Let_def stepLong_of_Num [OF assms] sl
    by (simp only: option.map prod.case deref_rings)
qed

lemma tiles_empty: "\<not> js_lt west east \<Longrightarrow> tiles north east south west = Some []"
  by (simp add: tiles_def Let_def) (subst slices.simps, simp)

section \<open>The converters as maps\<close>

lemma multiPointToGeo_loop_eq:
  "multiPointToGeo_loop i points acc = acc @ map pointToGeo (drop i points)"
proof (induction i points acc rule: multiPointToGeo_loop.induct)
  case (1 i points acc)
  show ?case
  proof (cases "i < length points")
    case True
    then show ?thesis
      using 1 by (subst multiPointToGeo_loop.simps) (simp add: Cons_nth_drop_Suc [symmetric])
  next
    case False
    then show ?thesis by (subst multiPointToGeo_loop.simps) simp
  qed
qed

lemma multiPointToGeo_map: "multiPointToGeo points = map pointToGeo points"
  by (simp add: multiPointToGeo_def multiPointToGeo_loop_eq)

lemma multiGeoToPoint_loop_eq:
  "multiGeoToPoint_loop i geoPoints acc = acc @ map geoToPoint (drop i geoPoints)"
proof (induction i geoPoints acc rule: multiGeoToPoint_loop.induct)
  case (1 i geoPoints acc)
  show ?case
  proof (cases "i < length geoPoints")
    case True
    then show ?thesis
      using 1 by (subst multiGeoToPoint_loop.simps)
        (simp add: Cons_nth_drop_Suc [symmetric] geoToPoint_def)
  next
    case False
    then show ?thesis by (subst multiGeoToPoint_loop.simps) simp
  qed
qed

lemma multiGeoToPoint_map: "multiGeoToPoint geoPoints = map geoToPoint geoPoints"
  by (simp add: multiGeoToPoint_def multiGeoToPoint_loop_eq)

lemma multiLineToGeo_loop_eq:
  "multiLineToGeo_loop i multiLine acc = acc @ map multiPointToGeo (drop i multiLine)"
proof (induction i multiLine acc rule: multiLineToGeo_loop.induct)
  case (1 i multiLine acc)
  show ?case
  proof (cases "i < length multiLine")
    case True
    then show ?thesis
      using 1 by (subst multiLineToGeo_loop.simps) (simp add: Cons_nth_drop_Suc [symmetric])
  next
    case False
    then show ?thesis by (subst multiLineToGeo_loop.simps) simp
  qed
qed

lemma multiLineToGeo_map: "multiLineToGeo multiLine = map multiPointToGeo multiLine"
  by (simp add: multiLineToGeo_def multiLineToGeo_loop_eq)

lemma update_last: "i = length acc \<Longrightarrow> (acc @ [x])[i := y] = acc @ [y]"
  by simp

lemma multiPolygonToGeo_loop_eq:
  "i = length acc \<Longrightarrow>
   multiPolygonToGeo_loop i multiPolygon acc =
     acc @ map (\<lambda>polygon. map (\<lambda>r. Some (multiPointToGeo r)) (present polygon)) (drop i multiPolygon)"
proof (induction k \<equiv> "length multiPolygon - i" arbitrary: i acc)
  case 0
  then show ?case by (subst multiPolygonToGeo_loop.simps) simp
next
  case (Suc k)
  then have less: "i < length multiPolygon" and k: "k = length multiPolygon - (i + 1)" by simp_all
  have "multiPolygonToGeo_loop i multiPolygon acc =
        multiPolygonToGeo_loop (i + 1) multiPolygon
          (acc @ [map (\<lambda>r. Some (multiPointToGeo r)) (present (multiPolygon ! i))])"
    using less Suc.prems
    by (subst multiPolygonToGeo_loop.simps)
      (simp add: assign_def push_def Let_def nth_append present_def update_last
         split: option.splits)
  also have "\<dots> = (acc @ [map (\<lambda>r. Some (multiPointToGeo r)) (present (multiPolygon ! i))]) @
      map (\<lambda>polygon. map (\<lambda>r. Some (multiPointToGeo r)) (present polygon))
        (drop (i + 1) multiPolygon)"
    using Suc.prems by (intro Suc.hyps(1) [OF k]) simp
  finally show ?case
    using less by (simp add: Cons_nth_drop_Suc [symmetric])
qed

lemma multiPolygonToGeo_map:
  "multiPolygonToGeo multiPolygon =
     map (\<lambda>polygon. map (\<lambda>r. Some (multiPointToGeo r)) (present polygon)) multiPolygon"
  by (simp add: multiPolygonToGeo_def multiPolygonToGeo_loop_eq)

lemma multiGeoPolygonToMultipolygon_loop_eq:
  "i = length acc \<Longrightarrow>
   multiGeoPolygonToMultipolygon_loop i multiGeoPolygon acc =
     acc @ map (\<lambda>polygon. map (\<lambda>r. Some (multiGeoToPoint r)) (present polygon))
             (drop i multiGeoPolygon)"
proof (induction k \<equiv> "length multiGeoPolygon - i" arbitrary: i acc)
  case 0
  then show ?case by (subst multiGeoPolygonToMultipolygon_loop.simps) simp
next
  case (Suc k)
  then have less: "i < length multiGeoPolygon" and k: "k = length multiGeoPolygon - (i + 1)"
    by simp_all
  have "multiGeoPolygonToMultipolygon_loop i multiGeoPolygon acc =
        multiGeoPolygonToMultipolygon_loop (i + 1) multiGeoPolygon
          (acc @ [map (\<lambda>r. Some (multiGeoToPoint r)) (present (multiGeoPolygon ! i))])"
    using less Suc.prems
    by (subst multiGeoPolygonToMultipolygon_loop.simps)
      (simp add: assign_def push_def Let_def nth_append present_def update_last
         split: option.splits)
  also have "\<dots> = (acc @ [map (\<lambda>r. Some (multiGeoToPoint r)) (present (multiGeoPolygon ! i))]) @
      map (\<lambda>polygon. map (\<lambda>r. Some (multiGeoToPoint r)) (present polygon))
        (drop (i + 1) multiGeoPolygon)"
    using Suc.prems by (intro Suc.hyps(1) [OF k]) simp
  finally show ?case
    using less by (simp add: Cons_nth_drop_Suc [symmetric])
qed

lemma multiGeoPolygonToMultipolygon_map:
  "multiGeoPolygonToMultipolygon multiGeoPolygon =
     map (\<lambda>polygon. map (\<lambda>r. Some (multiGeoToPoint r)) (present polygon)) multiGeoPolygon"
  by (simp add: multiGeoPolygonToMultipolygon_def multiGeoPolygonToMultipolygon_loop_eq)

lemma each_push:
  "r < length h \<Longrightarrow>
   each segment (\<lambda>geoPoint. push r (f geoPoint)) h = h[r := h ! r @ map f segment]"
proof (induction segment arbitrary: h)
  case Nil
  then show ?case by simp
next
  case (Cons g segment)
  have "each (g # segment) (\<lambda>geoPoint. push r (f geoPoint)) h =
        each segment (\<lambda>geoPoint. push r (f geoPoint)) (push r (f g) h)"
    by simp
  also have "\<dots> = (push r (f g) h)[r := push r (f g) h ! r @ map f segment]"
    using Cons.prems by (intro Cons.IH) (simp add: push_def)
  also have "\<dots> = h[r := h ! r @ map f (g # segment)]"
    using Cons.prems by (simp add: push_def)
  finally show ?case .
qed

lemma each_segment:
  fixes fn :: "geoPoint list \<Rightarrow> xy store \<times> ref list \<Rightarrow> xy store \<times> ref list"
  assumes step: "\<And>segment h multiLine.
    fn segment (h, multiLine) = (h @ [map geoToPoint segment], multiLine @ [length h])"
  shows "each multiGeoLine fn (h, multiLine) =
    (h @ map (map geoToPoint) multiGeoLine,
     multiLine @ map (\<lambda>j. length h + j) [0..<length multiGeoLine])"
proof (induction multiGeoLine arbitrary: h multiLine)
  case Nil
  then show ?case by simp
next
  case (Cons segment multiGeoLine)
  have "each (segment # multiGeoLine) fn (h, multiLine) =
        each multiGeoLine fn (h @ [map geoToPoint segment], multiLine @ [length h])"
    by (simp add: step)
  also note Cons.IH
  also have "((h @ [map geoToPoint segment]) @ map (map geoToPoint) multiGeoLine,
       (multiLine @ [length h]) @
       map (\<lambda>j. length (h @ [map geoToPoint segment]) + j) [0..<length multiGeoLine]) =
      (h @ map (map geoToPoint) (segment # multiGeoLine),
       multiLine @ map (\<lambda>j. length h + j) [0..<length (segment # multiGeoLine)])"
    by (simp add: map_upt_Suc del: upt_Suc)
  finally show ?case .
qed

lemma deref_all: "map (deref xs) [0..<length xs] = xs"
  by (simp add: deref_def [abs_def] map_nth)

lemma multiGeoLineToMultiLine_map:
  "multiGeoLineToMultiLine multiGeoLine = map (map geoToPoint) multiGeoLine"
proof -
  have "each multiGeoLine
     (\<lambda>segment (h, multiLine).
        case new_array h of (multiLineSegment, h) \<Rightarrow>
          (each segment
             (\<lambda>geoPoint. push multiLineSegment [longitude geoPoint, latitude geoPoint]) h,
           multiLine @ [multiLineSegment]))
     ([], []) =
    ([] @ map (map geoToPoint) multiGeoLine,
     [] @ map (\<lambda>j. length ([] :: xy store) + j) [0..<length multiGeoLine])"
    by (rule each_segment) (simp add: new_array_def each_push geoToPoint_def [abs_def])
  then show ?thesis
    using deref_all [of "map (map geoToPoint) multiGeoLine"]
    by (simp add: multiGeoLineToMultiLine_def)
qed

lemma geoToPoint_pointToGeo: "length p = 2 \<Longrightarrow> geoToPoint (pointToGeo p) = p"
proof -
  assume "length p = 2"
  then obtain a b where "p = [a, b]"
    by (cases p; cases "tl p") auto
  then show ?thesis by (simp add: geoToPoint_def pointToGeo_def get_def)
qed

lemma multiGeoToPoint_multiPointToGeo:
  "\<forall>p\<in>set P. length p = 2 \<Longrightarrow> multiGeoToPoint (multiPointToGeo P) = P"
  by (simp add: multiGeoToPoint_map multiPointToGeo_map geoToPoint_pointToGeo map_idI)

section \<open>The result on finite boxes\<close>

lemmas closed = slice_count_def slice_width_def reach_def lat_count_def top_points_def
  right_points_def bottom_points_def left_points_def ring_of_def

lemmas nudged = nudged_west_def nudged_east_def nudged_north_def nudged_south_def

lemma floor_rat_numeral [simp]: "\<lfloor>numeral a / numeral b :: rat\<rfloor> = numeral a div numeral b"
  using floor_divide_of_int_eq [of "numeral a" "numeral b", where ?'a = rat] by simp

lemma ceiling_rat_numeral [simp]: "\<lceil>numeral a / numeral b :: rat\<rceil> = - (- numeral a div numeral b)"
  using floor_divide_of_int_eq [of "- numeral a" "numeral b", where ?'a = rat]
  by (simp add: ceiling_def)

lemma floor_rat_one [simp]: "\<lfloor>1 / numeral b :: rat\<rfloor> = 1 div numeral b"
  using floor_divide_of_int_eq [of 1 "numeral b", where ?'a = rat] by simp

lemma ceiling_rat_one [simp]: "\<lceil>1 / numeral b :: rat\<rceil> = - (- 1 div numeral b)"
  using floor_divide_of_int_eq [of "- 1" "numeral b", where ?'a = rat]
  by (simp add: ceiling_def)

lemma getBackground_Num:
  "getBackground (Num n) (Num e) (Num s) (Num w) =
     tiles (Num (nudged_north n)) (Num (nudged_east e)) (Num (nudged_south s)) (Num (nudged_west w))"
  by (simp add: getBackground_def nudged)







lemmas evals = getBackground_Num tiles_Num stepLat_of_above nudged closed upt_conv_Cons












lemma js_eq_not_lt: "js_eq east west \<Longrightarrow> \<not> js_lt west east"
  by (cases east; cases west) (auto simp: js_eq_def)

lemma stepLong_of_equal: "js_eq east west \<Longrightarrow> stepLong_of east west = NaN"
  by (cases east; cases west)
    (auto simp: js_eq_def stepLong_of_def js_sub_def js_add_def js_div_def js_min_def
       zero_of_def inf_of_def)


section \<open>The converters on well-formed values\<close>

lemma present_cases:
  assumes "length polygon \<le> 2" and "\<forall>slot\<in>set polygon. \<exists>ring. slot = Some ring"
  shows "map Some (present polygon) = polygon"
proof -
  consider "polygon = []" | a where "polygon = [Some a]" | a b where "polygon = [Some a, Some b]"
  proof (cases polygon)
    case Nil
    then show ?thesis using that by simp
  next
    case (Cons x xs)
    note outer = Cons
    show ?thesis
    proof (cases xs)
      case Nil
      then show ?thesis using that outer assms(2) by auto
    next
      case (Cons y ys)
      then have "ys = []" using outer assms(1) by simp
      then show ?thesis using that outer Cons assms(2) by auto
    qed
  qed
  then show ?thesis by cases (simp_all add: present_def get_def)
qed

lemma present_subset: "r \<in> set (present polygon) \<Longrightarrow> Some r \<in> set polygon"
  by (auto simp: present_def get_def split: option.splits if_splits)

lemma length_present: "length (present polygon) \<le> 2"
  by (simp add: present_def split: option.splits)

lemma present_map_Some: "length xs \<le> 2 \<Longrightarrow> present (map (\<lambda>r. Some (f r)) xs) = map f xs"
proof -
  assume "length xs \<le> 2"
  then consider "xs = []" | a where "xs = [a]" | a b where "xs = [a, b]"
    by (cases xs; cases "tl xs"; cases "tl (tl xs)") auto
  then show ?thesis by cases (simp_all add: present_def get_def)
qed

section \<open>The claims\<close>



text \<open>
  C2. An input that is exactly \<open>-180\<close> (west), \<open>-90\<close> (south), \<open>90\<close> (north) or \<open>180\<close> (east) is
  replaced by \<open>-179.9999\<close>, \<open>-89.9999\<close>, \<open>89.9999\<close> or \<open>179.9999\<close> before the tiling, and
  \<open>getBackground(90, 180, -90, -180)\<close> returns polygons none of whose points, each a pair
  \<open>[longitude, latitude]\<close>, has latitude \<open>90\<close> or \<open>-90\<close> or longitude \<open>180\<close> or \<open>-180\<close>.
\<close>

theorem getBackground_nudge:
  "(\<forall>north east south. getBackground north east south (Num (- 180)) =
      getBackground north east south (Num (- (1799999 / 10000)))) \<and>
   (\<forall>north east west. getBackground north east (Num (- 90)) west =
      getBackground north east (Num (- (899999 / 10000))) west) \<and>
   (\<forall>east south west. getBackground (Num 90) east south west =
      getBackground (Num (899999 / 10000)) east south west) \<and>
   (\<forall>north south west. getBackground north (Num 180) south west =
      getBackground north (Num (1799999 / 10000)) south west) \<and>
   getBackground (Num 90) (Num 180) (Num (- 90)) (Num (- 180)) =
     tiles (Num (899999 / 10000)) (Num (1799999 / 10000))
       (Num (- (899999 / 10000))) (Num (- (1799999 / 10000))) \<and>
   (\<exists>mp. getBackground (Num 90) (Num 180) (Num (- 90)) (Num (- 180)) = Some mp \<and>
      mp \<noteq> [] \<and> filter on_extreme (concat (concat mp)) = [] \<and>
      map length (concat (concat mp)) = replicate (length (concat (concat mp))) 2)"
proof -
  have "getBackground north east south (Num (- 180)) =
        getBackground north east south (Num (- (1799999 / 10000)))" for north east south
    by (simp add: getBackground_def)
  moreover have "getBackground north east (Num (- 90)) west =
        getBackground north east (Num (- (899999 / 10000))) west" for north east west
    by (simp add: getBackground_def)
  moreover have "getBackground (Num 90) east south west =
        getBackground (Num (899999 / 10000)) east south west" for east south west
    by (simp add: getBackground_def)
  moreover have "getBackground north (Num 180) south west =
        getBackground north (Num (1799999 / 10000)) south west" for north south west
    by (simp add: getBackground_def)
  moreover have "getBackground (Num 90) (Num 180) (Num (- 90)) (Num (- 180)) =
     tiles (Num (899999 / 10000)) (Num (1799999 / 10000))
       (Num (- (899999 / 10000))) (Num (- (1799999 / 10000)))"
    by (simp add: getBackground_def)
  moreover have "\<exists>mp. getBackground (Num 90) (Num 180) (Num (- 90)) (Num (- 180)) = Some mp \<and>
      mp \<noteq> [] \<and> filter on_extreme (concat (concat mp)) = [] \<and>
      map length (concat (concat mp)) = replicate (length (concat (concat mp))) 2"
    by (simp add: evals)
  ultimately show ?thesis by blast
qed

text \<open>
  C3, as stated: the top edge of the one slice of \<open>getBackground(10, 10, -10, -10)\<close> has only
  the points \<open>[-10, 10]\<close> and \<open>[10, 10]\<close>. It fails: the ring that is returned has five points
  on its top edge, one every 5 degrees.
\<close>

theorem top_edge_counterexample:
  "getBackground (Num 10) (Num 10) (Num (- 10)) (Num (- 10)) =
     Some [[[[Num (- 10), Num 10], [Num (- 5), Num 10], [Num 0, Num 10], [Num 5, Num 10],
             [Num 10, Num 10],
             [Num 10, Num 10], [Num 10, Num (- 10)],
             [Num 10, Num (- 10)], [Num 5, Num (- 10)], [Num 0, Num (- 10)],
             [Num (- 5), Num (- 10)], [Num (- 10), Num (- 10)],
             [Num (- 10), Num (- 10)], [Num (- 10), Num 10]]]]"
  by (simp add: evals)

text \<open>
  C3, amended: \<open>getBackground(10, 10, -10, -10)\<close> yields exactly one slice with
  \<open>stepLong = 20\<close>, and the top edge of its ring, the points that the first loop pushes
  before the right edge begins at \<open>[10, 10]\<close>, is the five points \<open>[-10, 10]\<close>, \<open>[-5, 10]\<close>,
  \<open>[0, 10]\<close>, \<open>[5, 10]\<close>, \<open>[10, 10]\<close>.
\<close>

theorem top_edge_small_box:
  "stepLong_of (Num 10) (Num (- 10)) = Num 20 \<and>
   topEdge (Num (- 10)) (Num (- 10)) (Num 20) (Num 10) 0 [[]] =
     Some [[[Num (- 10), Num 10], [Num (- 5), Num 10], [Num 0, Num 10], [Num 5, Num 10],
            [Num 10, Num 10]]] \<and>
   (\<exists>rest. getBackground (Num 10) (Num 10) (Num (- 10)) (Num (- 10)) =
      Some [[[[Num (- 10), Num 10], [Num (- 5), Num 10], [Num 0, Num 10], [Num 5, Num 10],
              [Num 10, Num 10]] @ rest]] \<and>
      hd rest = [Num 10, Num 10] \<and> length rest = 9)"
proof -
  have "stepLong_of (Num 10) (Num (- 10)) = Num 20"
    by (simp add: stepLong_of_Num closed)
  moreover have "topEdge (Num (- 10)) (Num (- 10)) (Num 20) (Num 10) 0 [[]] =
     Some [[[Num (- 10), Num 10], [Num (- 5), Num 10], [Num 0, Num 10], [Num 5, Num 10],
            [Num 10, Num 10]]]"
    by (simp add: topEdge_Num closed upt_conv_Cons)
  moreover have "\<exists>rest. getBackground (Num 10) (Num 10) (Num (- 10)) (Num (- 10)) =
      Some [[[[Num (- 10), Num 10], [Num (- 5), Num 10], [Num 0, Num 10], [Num 5, Num 10],
              [Num 10, Num 10]] @ rest]] \<and>
      hd rest = [Num 10, Num 10] \<and> length rest = 9"
    by (simp add: evals)
  ultimately show ?thesis by blast
qed





text \<open>
  C6. For a MultiPolygon whose polygons have at most two rings, all of them there, and
  whose points are pairs, converting to geo points and back gives the MultiPolygon again.
\<close>

theorem polygons_round_trip:
  assumes "\<forall>polygon\<in>set M. length polygon \<le> 2 \<and>
             (\<forall>slot\<in>set polygon. \<exists>ring. slot = Some ring \<and> (\<forall>p\<in>set ring. length p = 2))"
  shows "multiGeoPolygonToMultipolygon (multiPolygonToGeo M) = M"
proof -
  have "map (\<lambda>r. Some (multiGeoToPoint r))
          (present (map (\<lambda>r. Some (multiPointToGeo r)) (present polygon))) = polygon"
    if "polygon \<in> set M" for polygon
  proof -
    from that assms have len: "length polygon \<le> 2"
      and slots: "\<forall>slot\<in>set polygon. \<exists>ring. slot = Some ring"
      and pairs: "\<And>ring p. Some ring \<in> set polygon \<Longrightarrow> p \<in> set ring \<Longrightarrow> length p = 2"
      by fastforce+
    have "map (\<lambda>r. Some (multiGeoToPoint r))
            (present (map (\<lambda>r. Some (multiPointToGeo r)) (present polygon))) =
          map (\<lambda>r. Some (multiGeoToPoint (multiPointToGeo r))) (present polygon)"
      by (simp add: present_map_Some [OF length_present] comp_def)
    also have "\<dots> = map Some (present polygon)"
    proof (intro map_cong refl)
      fix r assume "r \<in> set (present polygon)"
      then have "Some r \<in> set polygon" by (rule present_subset)
      then have "\<forall>p\<in>set r. length p = 2" using pairs by blast
      then show "Some (multiGeoToPoint (multiPointToGeo r)) = Some r"
        by (simp only: multiGeoToPoint_multiPointToGeo)
    qed
    also have "\<dots> = polygon"
      by (rule present_cases [OF len slots])
    finally show ?thesis .
  qed
  then show ?thesis
    by (simp add: multiGeoPolygonToMultipolygon_map multiPolygonToGeo_map comp_def map_idI)
qed

theorem polygons_round_trip_witness:
  "multiGeoPolygonToMultipolygon
     (multiPolygonToGeo
        [[Some [[Some (Num 0), Some (Num 0)], [Some (Num 4), Some (Num 0)], [Some (Num 0), Some (Num 3)]],
          Some [[Some (Num 1), Some (Num 1)], [Some (Num 2), Some (Num 1)], [Some (Num 1), Some (Num 2)]]],
         [Some [[Some (Num 9), Some (Num 9)]]], []]) =
     [[Some [[Some (Num 0), Some (Num 0)], [Some (Num 4), Some (Num 0)], [Some (Num 0), Some (Num 3)]],
       Some [[Some (Num 1), Some (Num 1)], [Some (Num 2), Some (Num 1)], [Some (Num 1), Some (Num 2)]]],
      [Some [[Some (Num 9), Some (Num 9)]]], []]"
  by (rule polygons_round_trip) simp

text \<open>
  C7, as stated: a polygon with a hole at slot 1 and no surface at slot 0 is converted to
  a polygon with an empty array at index 0 and the hole at slot 1. It fails: the
  converters push the hole onto the empty output polygon, so it lands at slot 0 and the
  output polygon has one element.
\<close>

theorem hole_slot_counterexample:
  "multiPolygonToGeo [[None, Some [[Some (Num 1), Some (Num 2)]]]] =
     [[Some [\<lparr>longitude = Some (Num 1), latitude = Some (Num 2)\<rparr>]]] \<and>
   multiGeoPolygonToMultipolygon
     [[None, Some [\<lparr>longitude = Some (Num 1), latitude = Some (Num 2)\<rparr>]]] =
     [[Some [[Some (Num 1), Some (Num 2)]]]]"
  by (simp add: multiPolygonToGeo_map multiGeoPolygonToMultipolygon_map present_def get_def
        multiPointToGeo_map multiGeoToPoint_map pointToGeo_def geoToPoint_def)

text \<open>
  C7, amended: when a polygon has a hole at slot 1 but no surface at slot 0,
  \<open>multiPolygonToGeo\<close> (and dually \<open>multiGeoPolygonToMultipolygon\<close>) returns for it a polygon
  whose only element is the converted hole, at slot 0.
\<close>

theorem hole_without_surface:
  "(i < length M \<and> get (M ! i) 0 = None \<and> get (M ! i) 1 = Some hole \<longrightarrow>
      multiPolygonToGeo M ! i = [Some (multiPointToGeo hole)]) \<and>
   (j < length G \<and> get (G ! j) 0 = None \<and> get (G ! j) 1 = Some geoHole \<longrightarrow>
      multiGeoPolygonToMultipolygon G ! j = [Some (multiGeoToPoint geoHole)])"
  by (simp add: multiPolygonToGeo_map multiGeoPolygonToMultipolygon_map present_def)

theorem hole_without_surface_witness:
  "multiPolygonToGeo [[Some [[Some (Num 0), Some (Num 0)]]], [None, Some [[Some (Num 1), Some (Num 2)]]]] ! 1 =
     [Some (multiPointToGeo [[Some (Num 1), Some (Num 2)]])] \<and>
   multiGeoPolygonToMultipolygon
     [[None, Some [\<lparr>longitude = Some (Num 1), latitude = Some (Num 2)\<rparr>]]] ! 0 =
     [Some (multiGeoToPoint [\<lparr>longitude = Some (Num 1), latitude = Some (Num 2)\<rparr>])]"
  using hole_without_surface [of 1
      "[[Some [[Some (Num 0), Some (Num 0)]]], [None, Some [[Some (Num 1), Some (Num 2)]]]]"
      "[[Some (Num 1), Some (Num 2)]]" 0
      "[[None, Some [\<lparr>longitude = Some (Num 1), latitude = Some (Num 2)\<rparr>]]]"
      "[\<lparr>longitude = Some (Num 1), latitude = Some (Num 2)\<rparr>]"]
  by (simp add: get_def)

text \<open>
  C8. Converting a sequence of points, each a pair, to geo points and back gives the
  sequence again, with its length and order.
\<close>

theorem points_round_trip:
  assumes "\<forall>p\<in>set P. length p = 2"
  shows "multiGeoToPoint (multiPointToGeo P) = P \<and> length (multiPointToGeo P) = length P"
  using multiGeoToPoint_multiPointToGeo [OF assms] by (simp add: multiPointToGeo_map)

theorem points_round_trip_witness:
  "map length [[Some (Num 1), Some (Num 2)], [Some (Num 3), None]] = [2, 2] \<and>
   multiGeoToPoint (multiPointToGeo [[Some (Num 1), Some (Num 2)], [Some (Num 3), None]]) =
     [[Some (Num 1), Some (Num 2)], [Some (Num 3), None]]"
  using points_round_trip [of "[[Some (Num 1), Some (Num 2)], [Some (Num 3), None]]"] by simp

text \<open>
  C9. \<open>multiGeoLineToMultiLine\<close>, with its own loops, gives what \<open>multiGeoToPoint\<close> gives on
  each line of a geo multiline, and converting a multiline of 2-element points with
  \<open>multiLineToGeo\<close> and back with it gives the multiline again.
\<close>

theorem multiGeoLineToMultiLine_pointwise:
  "multiGeoLineToMultiLine G = map multiGeoToPoint G \<and>
   ((\<forall>line\<in>set L. \<forall>p\<in>set line. length p = 2) \<longrightarrow>
      multiGeoLineToMultiLine (multiLineToGeo L) = L)"
proof -
  have 1: "multiGeoLineToMultiLine G = map multiGeoToPoint G" for G
    by (simp add: multiGeoLineToMultiLine_map multiGeoToPoint_map [abs_def])
  have 2: "multiGeoLineToMultiLine (multiLineToGeo L) = L"
    if "\<forall>line\<in>set L. \<forall>p\<in>set line. length p = 2"
  proof -
    have "multiGeoLineToMultiLine (multiLineToGeo L) =
          map (\<lambda>line. multiGeoToPoint (multiPointToGeo line)) L"
      by (simp add: 1 multiLineToGeo_map comp_def)
    also have "\<dots> = map (\<lambda>line. line) L"
      using that by (intro map_cong refl multiGeoToPoint_multiPointToGeo) blast
    finally show ?thesis by simp
  qed
  from 1 2 show ?thesis by blast
qed

theorem multiGeoLineToMultiLine_pointwise_witness:
  "multiGeoLineToMultiLine
     [[\<lparr>longitude = Some (Num 1), latitude = Some (Num 2)\<rparr>], []] =
     map multiGeoToPoint [[\<lparr>longitude = Some (Num 1), latitude = Some (Num 2)\<rparr>], []] \<and>
   multiGeoLineToMultiLine
     (multiLineToGeo [[[Some (Num 1), Some (Num 2)], [Some (Num 3), Some (Num 4)]], [],
                      [[Some (Num 5), Some (Num 6)]]]) =
     [[[Some (Num 1), Some (Num 2)], [Some (Num 3), Some (Num 4)]], [],
      [[Some (Num 5), Some (Num 6)]]]"
proof -
  have pairs: "\<forall>line\<in>set [[[Some (Num 1), Some (Num 2)], [Some (Num 3), Some (Num 4)]], [],
                      [[Some (Num 5), Some (Num 6)]]]. \<forall>p\<in>set line. length p = 2"
    by simp
  from multiGeoLineToMultiLine_pointwise
    [of "[[\<lparr>longitude = Some (Num 1), latitude = Some (Num 2)\<rparr>], []]"
        "[[[Some (Num 1), Some (Num 2)], [Some (Num 3), Some (Num 4)]], [],
          [[Some (Num 5), Some (Num 6)]]]"] pairs
  show ?thesis by blast
qed

text \<open>
  C10. When east equals west, and west is not \<open>-180\<close> and east is not \<open>180\<close>, the step is
  a division of zero by zero, NaN, the loop condition fails at its first test and
  \<open>getBackground\<close> returns the empty MultiPolygon, whatever north and south are.
\<close>

theorem zero_span_empty:
  assumes "js_eq east west" and "\<not> js_eq west (Num (- 180))" and "\<not> js_eq east (Num 180)"
  shows "stepLong_of east west = NaN \<and> getBackground north east south west = Some []"
  using assms js_eq_not_lt [OF assms(1)]
  by (simp add: stepLong_of_equal getBackground_def Let_def tiles_empty)

theorem zero_span_empty_witness:
  "stepLong_of (Num 20) (Num 20) = NaN \<and>
   getBackground (Num 10) (Num 20) (Num (- 10)) (Num 20) = Some []"
  using zero_span_empty [of "Num 20" "Num 20" "Num 10" "Num (- 10)"] by simp

end
